theory Spec2Isabelle
  imports Main "HOL-Library.AList" "HOL-Library.Word"
begin

section \<open>Python values\<close>

text \<open>
  A Python \<open>str\<close> is a sequence of Unicode code points; a code point is modelled by its
  number. The fixed texts of the program are written as ASCII literals and converted
  with \<open>ustr\<close>.
\<close>

type_synonym pystr = "nat list"

definition ustr :: "string \<Rightarrow> pystr" where
  "ustr s = map of_char s"

text \<open>
  What \<open>json.load\<close> returns: \<open>None\<close>, \<open>bool\<close>, \<open>int\<close> (unbounded), \<open>float\<close> (kept as its
  64 IEEE bits: the program only copies values), \<open>str\<close>, \<open>list\<close> and \<open>dict\<close>. A \<open>dict\<close> is
  an association list in insertion order.
\<close>

datatype json =
    JNull
  | JBool bool
  | JInt int
  | JFloat "64 word"
  | JStr pystr
  | JArr "json list"
  | JObj "(pystr \<times> json) list"

type_synonym pydict = "(pystr \<times> json) list"

text \<open>\<open>key in d\<close> for a dict \<open>d\<close>.\<close>

definition dict_contains :: "pydict \<Rightarrow> pystr \<Rightarrow> bool" where
  "dict_contains d key = (map_of d key \<noteq> None)"

text \<open>
  \<open>d[key] = v\<close>: an existing key keeps its position and takes the new value, a new key
  is appended. This is \<open>AList.update key v d\<close>.
\<close>

section \<open>The string operations of the argument resolver\<close>

text \<open>
  \<open>str.isspace\<close> on one code point, the table of CPython's \<open>_PyUnicode_IsWhitespace\<close>:
  U+0009..U+000D, U+001C..U+0020, U+0085, U+00A0, U+1680, U+2000..U+200A, U+2028, U+2029,
  U+202F, U+205F, U+3000.
\<close>

definition py_isspace :: "nat \<Rightarrow> bool" where
  "py_isspace c =
     ((9 \<le> c \<and> c \<le> 13) \<or> (28 \<le> c \<and> c \<le> 32) \<or> c = 133 \<or> c = 160 \<or> c = 5760 \<or>
      (8192 \<le> c \<and> c \<le> 8202) \<or> c = 8232 \<or> c = 8233 \<or> c = 8239 \<or> c = 8287 \<or> c = 12288)"

text \<open>\<open>s.strip()\<close>: leading and trailing whitespace removed.\<close>

definition str_strip :: "pystr \<Rightarrow> pystr" where
  "str_strip s = rev (dropWhile py_isspace (rev (dropWhile py_isspace s)))"

text \<open>
  \<open>s.split(sep)\<close> for a separator of one code point: the pieces between the separators,
  empty pieces kept, so that the empty string gives one empty piece.
\<close>

fun str_split :: "nat \<Rightarrow> pystr \<Rightarrow> pystr list" where
  "str_split sep [] = [[]]"
| "str_split sep (c # cs) =
     (if c = sep then [] # str_split sep cs
      else (case str_split sep cs of
              [] \<Rightarrow> [[c]]
            | t # ts \<Rightarrow> (c # t) # ts))"

definition comma :: nat where
  "comma = 44"

section \<open>Arguments, environment and outcome of a run\<close>

text \<open>The namespace returned by \<open>parse_arguments\<close>: \<open>-f\<close>, \<open>-n\<close> (\<open>type=int\<close>), \<open>-k\<close>, \<open>-c\<close>.\<close>

record args =
  arg_f :: pystr
  arg_n :: int
  arg_k :: pystr
  arg_c :: bool

text \<open>What is written to an output file: the rendering is the library's.\<close>

datatype content =
    JsonDump json
  | CsvDump "pystr list" "pydict list"

text \<open>
  The environment of a run. The library and operating-system calls of the program are
  parameters: \<open>script_dir\<close> is \<open>os.path.dirname(os.path.abspath(__file__))\<close>, \<open>path_join\<close> is
  \<open>os.path.join\<close>, \<open>isfile\<close> is \<open>os.path.isfile\<close>, \<open>json_load p\<close> is the result of opening
  \<open>p\<close> and \<open>json.load\<close> on it (\<open>None\<close> when either raises), and \<open>write_error name c\<close> is the
  text of the exception raised while opening \<open>name\<close> for writing and writing \<open>c\<close> to it
  (\<open>None\<close> when the write succeeds).
\<close>

record world =
  script_dir :: pystr
  path_join :: "pystr \<Rightarrow> pystr \<Rightarrow> pystr"
  isfile :: "pystr \<Rightarrow> bool"
  json_load :: "pystr \<Rightarrow> json option"
  write_error :: "pystr \<Rightarrow> content \<Rightarrow> pystr option"

text \<open>File-system accesses of a run, in order; \<open>WriteFile\<close> is the attempt to write.\<close>

datatype io_event =
    IsFile pystr
  | ReadJson pystr
  | WriteFile pystr content

text \<open>
  A function of the program stops the run either by printing one line and calling
  \<open>sys.exit(code)\<close>, or by an exception nobody catches.
\<close>

datatype abort =
    SysExit pystr int
  | KeyError pystr

record outcome =
  stdout :: "pystr list"
  exit_code :: int
  trace :: "io_event list"

definition msg_key_count :: pystr where
  "msg_key_count = ustr ''Number of keys provided does not match the -n argument!''"

definition msg_not_found :: pystr where
  "msg_not_found = ustr ''JSON FILE NOT FOUND!''"

definition msg_key_absent :: pystr where
  "msg_key_absent = ustr ''Requested KEY(s) not present in input file!''"

section \<open>\<open>load_json_file\<close>\<close>

definition load_json_file :: "world \<Rightarrow> pystr \<Rightarrow> io_event list \<times> (abort + json)" where
  "load_json_file w filename =
     (let filepath = path_join w (script_dir w) filename in
      if \<not> isfile w filepath then ([IsFile filepath], Inl (SysExit msg_not_found 1))
      else (case json_load w filepath of
              None \<Rightarrow> ([IsFile filepath, ReadJson filepath], Inl (SysExit msg_not_found 1))
            | Some data \<Rightarrow> ([IsFile filepath, ReadJson filepath], Inr data)))"

section \<open>\<open>extract_keys\<close>\<close>

text \<open>The inner loop \<open>for key in keys: if key not in item: ...\<close>.\<close>

fun require_keys :: "pydict \<Rightarrow> pystr list \<Rightarrow> abort + unit" where
  "require_keys item [] = Inr ()"
| "require_keys item (key # keys) =
     (if \<not> dict_contains item key then Inl (SysExit msg_key_absent 1)
      else require_keys item keys)"

text \<open>
  The comprehension \<open>{key: item[key] for key in keys}\<close>, with the dict built so far;
  \<open>item[key]\<close> raises \<open>KeyError\<close> on a missing key.
\<close>

fun dict_comp :: "pydict \<Rightarrow> pystr list \<Rightarrow> pydict \<Rightarrow> abort + pydict" where
  "dict_comp item [] new_item = Inr new_item"
| "dict_comp item (key # keys) new_item =
     (case map_of item key of
        None \<Rightarrow> Inl (KeyError key)
      | Some v \<Rightarrow> dict_comp item keys (AList.update key v new_item))"

text \<open>The body of the outer loop, for one element of \<open>data\<close>.\<close>

definition extract_item :: "json \<Rightarrow> pystr list \<Rightarrow> abort + pydict" where
  "extract_item item keys =
     (case item of
        JObj d \<Rightarrow>
          (case require_keys d keys of
             Inl e \<Rightarrow> Inl e
           | Inr _ \<Rightarrow> dict_comp d keys [])
      | _ \<Rightarrow> Inl (SysExit msg_not_found 1))"

text \<open>The outer loop \<open>for item in data\<close>, with \<open>subset\<close> as built so far.\<close>

fun extract_loop :: "json list \<Rightarrow> pystr list \<Rightarrow> pydict list \<Rightarrow> abort + pydict list" where
  "extract_loop [] keys subset_so_far = Inr subset_so_far"
| "extract_loop (item # data) keys subset_so_far =
     (case extract_item item keys of
        Inl e \<Rightarrow> Inl e
      | Inr new_item \<Rightarrow> extract_loop data keys (subset_so_far @ [new_item]))"

definition extract_keys :: "json list \<Rightarrow> pystr list \<Rightarrow> abort + pydict list" where
  "extract_keys data keys = extract_loop data keys []"

section \<open>\<open>output_json\<close> and \<open>output_csv\<close>\<close>

text \<open>Both return the file access made and, on success, the line printed.\<close>

definition output_json :: "world \<Rightarrow> pydict list \<Rightarrow> pystr \<Rightarrow> io_event list \<times> (abort + pystr)" where
  "output_json w data output_filename =
     (let doc = JsonDump (JArr (map JObj data)) in
      case write_error w output_filename doc of
        None \<Rightarrow> ([WriteFile output_filename doc],
                 Inr (ustr ''JSON output written to '' @ output_filename))
      | Some e \<Rightarrow> ([WriteFile output_filename doc],
                   Inl (SysExit (ustr ''Error writing JSON file: '' @ e) 1)))"

definition output_csv ::
  "world \<Rightarrow> pydict list \<Rightarrow> pystr list \<Rightarrow> pystr \<Rightarrow> io_event list \<times> (abort + pystr)" where
  "output_csv w data keys output_filename =
     (let doc = CsvDump keys data in
      case write_error w output_filename doc of
        None \<Rightarrow> ([WriteFile output_filename doc],
                 Inr (ustr ''CSV output written to '' @ output_filename))
      | Some e \<Rightarrow> ([WriteFile output_filename doc],
                   Inl (SysExit (ustr ''Error writing CSV file: '' @ e) 1)))"

section \<open>\<open>main\<close>\<close>

text \<open>
  The list comprehension of \<open>main\<close>:
  \<open>[key.strip() for key in args.k.split(",") if key.strip()]\<close>.
\<close>

definition parse_keys :: "pystr \<Rightarrow> pystr list" where
  "parse_keys ks = map str_strip (filter (\<lambda>key. str_strip key \<noteq> []) (str_split comma ks))"

text \<open>The key-count check of \<open>main\<close>, with the comprehension before it.\<close>

definition resolve_keys :: "args \<Rightarrow> abort + pystr list" where
  "resolve_keys a =
     (let keys = parse_keys (arg_k a) in
      if int (length keys) \<noteq> arg_n a then Inl (SysExit msg_key_count 1) else Inr keys)"

text \<open>
  How a run that is stopped ends: the line of a \<open>sys.exit\<close> path is on standard output;
  an uncaught exception prints its traceback to standard error and the interpreter
  exits with code 1.
\<close>

fun stopped :: "io_event list \<Rightarrow> abort \<Rightarrow> outcome" where
  "stopped evs (SysExit line code) = \<lparr>stdout = [line], exit_code = code, trace = evs\<rparr>"
| "stopped evs (KeyError key) = \<lparr>stdout = [], exit_code = 1, trace = evs\<rparr>"

definition json_output_name :: pystr where
  "json_output_name = ustr ''json_output.json''"

definition csv_output_name :: pystr where
  "csv_output_name = ustr ''json_output.csv''"

definition main :: "world \<Rightarrow> args \<Rightarrow> outcome" where
  "main w a =
     (case resolve_keys a of
        Inl e \<Rightarrow> stopped [] e
      | Inr keys \<Rightarrow>
          (case load_json_file w (arg_f a) of
             (evs, Inl e) \<Rightarrow> stopped evs e
           | (evs, Inr data) \<Rightarrow>
               (case data of
                  JArr items \<Rightarrow>
                    (case extract_keys items keys of
                       Inl e \<Rightarrow> stopped evs e
                     | Inr subset_data \<Rightarrow>
                         (case (if arg_c a then output_csv w subset_data keys csv_output_name
                                else output_json w subset_data json_output_name) of
                            (evs', Inl e) \<Rightarrow> stopped (evs @ evs') e
                          | (evs', Inr line) \<Rightarrow>
                              \<lparr>stdout = [line], exit_code = 0, trace = evs @ evs'\<rparr>))
                | _ \<Rightarrow> stopped evs (SysExit msg_not_found 1))))"

section \<open>Notions of the specification\<close>

text \<open>
  The elements of a list in the order of their first occurrence, each once: the order in
  which a Python dict holds keys inserted one after the other.
\<close>

definition first_occurrences :: "'a list \<Rightarrow> 'a list" where
  "first_occurrences xs = rev (remdups (rev xs))"

text \<open>
  The KeySpec in the words of the specification: split on commas, trim each token, drop
  the tokens that are empty after trimming.
\<close>

definition spec_keyspec :: "pystr \<Rightarrow> pystr list" where
  "spec_keyspec ks = filter (\<lambda>t. t \<noteq> []) (map str_strip (str_split comma ks))"

text \<open>
  A concrete environment for examples: the program lies in \<open>/app\<close>, the only file there is
  \<open>/app/input.json\<close>, reading it gives \<open>file\<close> (\<open>None\<close>: it does not parse), and every
  write succeeds.
\<close>

definition example_world :: "json option \<Rightarrow> world" where
  "example_world file =
     \<lparr>script_dir = ustr ''/app'',
      path_join = (\<lambda>dir name. dir @ ustr ''/'' @ name),
      isfile = (\<lambda>p. p = ustr ''/app/input.json''),
      json_load = (\<lambda>p. if p = ustr ''/app/input.json'' then file else None),
      write_error = (\<lambda>name doc. None)\<rparr>"

definition example_args :: "string \<Rightarrow> int \<Rightarrow> string \<Rightarrow> bool \<Rightarrow> args" where
  "example_args name count ks csv =
     \<lparr>arg_f = ustr name, arg_n = count, arg_k = ustr ks, arg_c = csv\<rparr>"

section \<open>Order of first occurrence\<close>

lemma remdups_snoc: "remdups (xs @ [k]) = filter (\<lambda>x. x \<noteq> k) (remdups xs) @ [k]"
  by (induction xs) auto

lemma first_occurrences_Nil: "first_occurrences [] = []"
  by (simp add: first_occurrences_def)

lemma first_occurrences_Cons:
  "first_occurrences (k # ks) = k # filter (\<lambda>x. x \<noteq> k) (first_occurrences ks)"
  by (simp add: first_occurrences_def remdups_snoc rev_filter)

lemma set_first_occurrences: "set (first_occurrences xs) = set xs"
  by (simp add: first_occurrences_def)

lemma distinct_first_occurrences: "distinct (first_occurrences xs)"
  by (simp add: first_occurrences_def)

lemma first_occurrences_distinct: "distinct xs \<Longrightarrow> first_occurrences xs = xs"
  by (simp add: first_occurrences_def distinct_remdups_id)

lemma length_first_occurrences: "length (first_occurrences xs) = card (set xs)"
  by (simp add: first_occurrences_def distinct_card [symmetric])

lemma length_first_occurrences_less:
  "\<not> distinct xs \<Longrightarrow> length (first_occurrences xs) < length xs"
  unfolding length_first_occurrences
  by (metis card_length distinct_card le_neq_implies_less card_distinct)

section \<open>The projection of one element and of the list\<close>

lemma require_keys_eq:
  "require_keys item keys =
     (if \<forall>key\<in>set keys. dict_contains item key then Inr ()
      else Inl (SysExit msg_key_absent 1))"
  by (induction keys) auto

lemma dict_comp_present:
  assumes "\<forall>key\<in>set keys. dict_contains item key"
  shows "\<exists>r. dict_comp item keys acc = Inr r
           \<and> map fst r = map fst acc @ filter (\<lambda>x. x \<notin> fst ` set acc) (first_occurrences keys)
           \<and> map_of r = map_of acc ++ (map_of item |` set keys)"
  using assms
proof (induction keys arbitrary: acc)
  case Nil
  then show ?case by (simp add: first_occurrences_Nil)
next
  case (Cons k ks)
  from Cons.prems obtain v where v: "map_of item k = Some v"
    by (auto simp: dict_contains_def)
  from Cons.prems have "\<forall>key\<in>set ks. dict_contains item key" by simp
  from Cons.IH [OF this, of "AList.update k v acc"]
  obtain r where r: "dict_comp item ks (AList.update k v acc) = Inr r"
    and ks: "map fst r = map fst (AList.update k v acc)
               @ filter (\<lambda>x. x \<notin> fst ` set (AList.update k v acc)) (first_occurrences ks)"
    and mp: "map_of r = map_of (AList.update k v acc) ++ (map_of item |` set ks)"
    by blast
  have 1: "dict_comp item (k # ks) acc = Inr r" using v r by simp
  have 2: "map fst r = map fst acc @ filter (\<lambda>x. x \<notin> fst ` set acc) (first_occurrences (k # ks))"
  proof (cases "k \<in> fst ` set acc")
    case True
    then have "(\<lambda>x. x \<noteq> k \<and> x \<notin> fst ` set acc) = (\<lambda>x. x \<notin> fst ` set acc)" by auto
    with True show ?thesis
      by (simp add: ks update_keys dom_update first_occurrences_Cons insert_absorb)
  next
    case False
    from False show ?thesis
      by (simp add: ks update_keys dom_update first_occurrences_Cons)
  qed
  have 3: "map_of r = map_of acc ++ (map_of item |` set (k # ks))"
  proof
    fix x
    show "map_of r x = (map_of acc ++ (map_of item |` set (k # ks))) x"
      using v by (simp add: mp update_conv' map_add_def restrict_map_def split: option.splits)
  qed
  from 1 2 3 show ?case by blast
qed

lemma dict_comp_absent:
  "\<not> (\<forall>key\<in>set keys. dict_contains item key) \<Longrightarrow> \<exists>key. dict_comp item keys acc = Inl (KeyError key)"
  by (induction keys arbitrary: acc) (auto simp: dict_contains_def split: option.splits)

lemma extract_item_present:
  assumes "\<forall>key\<in>set keys. dict_contains d key"
  shows "\<exists>r. extract_item (JObj d) keys = Inr r
           \<and> map fst r = first_occurrences keys
           \<and> map_of r = map_of d |` set keys"
proof -
  from dict_comp_present [OF assms, of "[]"]
  obtain r where "dict_comp d keys [] = Inr r"
    and "map fst r = first_occurrences keys" and "map_of r = map_of d |` set keys"
    by auto
  with assms show ?thesis
    by (simp add: extract_item_def require_keys_eq)
qed

lemma extract_item_absent:
  "\<not> (\<forall>key\<in>set keys. dict_contains d key) \<Longrightarrow>
     extract_item (JObj d) keys = Inl (SysExit msg_key_absent 1)"
  by (auto simp: extract_item_def require_keys_eq)

lemma extract_item_Inr:
  assumes "extract_item item keys = Inr r"
  shows "\<exists>d. item = JObj d \<and> (\<forall>key\<in>set keys. dict_contains d key)
           \<and> map fst r = first_occurrences keys \<and> map_of r = map_of d |` set keys"
proof (cases item)
  case (JObj d)
  show ?thesis
  proof (cases "\<forall>key\<in>set keys. dict_contains d key")
    case True
    from extract_item_present [OF True] assms JObj True show ?thesis by auto
  next
    case False
    from extract_item_absent [OF False] assms JObj show ?thesis by simp
  qed
qed (use assms in \<open>simp_all add: extract_item_def\<close>)

lemma extract_loop_Inr:
  "extract_loop data keys acc = Inr out \<longleftrightarrow>
     (\<exists>rs. out = acc @ rs \<and> list_all2 (\<lambda>item r. extract_item item keys = Inr r) data rs)"
proof (induction data arbitrary: acc)
  case Nil
  then show ?case by auto
next
  case (Cons item data)
  show ?case
  proof (cases "extract_item item keys")
    case (Inl e)
    then show ?thesis by (auto simp: list_all2_Cons1)
  next
    case (Inr r)
    then show ?thesis
      by (auto simp: Cons.IH list_all2_Cons1)
  qed
qed

lemma extract_keys_Inr:
  "extract_keys data keys = Inr out \<longleftrightarrow>
     list_all2 (\<lambda>item r. extract_item item keys = Inr r) data out"
  by (simp add: extract_keys_def extract_loop_Inr)

lemma extract_loop_first_failure:
  assumes "list_all2 (\<lambda>item r. extract_item item keys = Inr r) pre rs"
    and "extract_item bad keys = Inl e"
  shows "extract_loop (pre @ bad # rest) keys acc = Inl e"
  using assms
proof (induction pre arbitrary: rs acc)
  case Nil
  then show ?case by simp
next
  case (Cons item pre)
  then show ?case by (auto simp: list_all2_Cons1)
qed

lemma extract_keys_first_failure:
  assumes "\<forall>d\<in>set pre. \<forall>key\<in>set keys. dict_contains d key"
    and "extract_item bad keys = Inl e"
  shows "extract_keys (map JObj pre @ bad # rest) keys = Inl e"
proof -
  have "\<exists>rs. list_all2 (\<lambda>item r. extract_item item keys = Inr r) (map JObj pre) rs"
    using assms(1)
  proof (induction pre)
    case Nil
    then show ?case by simp
  next
    case (Cons d pre)
    then obtain rs where "list_all2 (\<lambda>item r. extract_item item keys = Inr r) (map JObj pre) rs"
      by auto
    moreover from Cons.prems extract_item_present [of keys d]
    obtain r where "extract_item (JObj d) keys = Inr r" by auto
    ultimately have "list_all2 (\<lambda>item r. extract_item item keys = Inr r) (map JObj (d # pre)) (r # rs)"
      by simp
    then show ?case by blast
  qed
  then show ?thesis
    using assms(2) by (auto simp: extract_keys_def intro: extract_loop_first_failure)
qed

lemma extract_keys_objects:
  assumes "\<forall>d\<in>set items. \<forall>key\<in>set keys. dict_contains d key"
  shows "\<exists>out. extract_keys (map JObj items) keys = Inr out
           \<and> length out = length items
           \<and> (\<forall>i<length items.
                 extract_item (JObj (items ! i)) keys = Inr (out ! i)
               \<and> map fst (out ! i) = first_occurrences keys
               \<and> map_of (out ! i) = map_of (items ! i) |` set keys)"
  using assms
proof (induction items)
  case Nil
  then show ?case by (simp add: extract_keys_Inr)
next
  case (Cons d items)
  then obtain out where out: "list_all2 (\<lambda>item r. extract_item item keys = Inr r) (map JObj items) out"
    and len: "length out = length items"
    and each: "\<forall>i<length items.
                 extract_item (JObj (items ! i)) keys = Inr (out ! i)
               \<and> map fst (out ! i) = first_occurrences keys
               \<and> map_of (out ! i) = map_of (items ! i) |` set keys"
    by (auto simp: extract_keys_Inr)
  from Cons.prems extract_item_present [of keys d]
  obtain r where r: "extract_item (JObj d) keys = Inr r"
    "map fst r = first_occurrences keys" "map_of r = map_of d |` set keys"
    by auto
  have "extract_keys (map JObj (d # items)) keys = Inr (r # out)"
    using out r(1) by (simp add: extract_keys_Inr)
  moreover have "length (r # out) = length (d # items)" using len by simp
  moreover have "\<forall>i<length (d # items).
                 extract_item (JObj ((d # items) ! i)) keys = Inr ((r # out) ! i)
               \<and> map fst ((r # out) ! i) = first_occurrences keys
               \<and> map_of ((r # out) ! i) = map_of ((d # items) ! i) |` set keys"
  proof (intro allI impI)
    fix i assume "i < length (d # items)"
    then show "extract_item (JObj ((d # items) ! i)) keys = Inr ((r # out) ! i)
               \<and> map fst ((r # out) ! i) = first_occurrences keys
               \<and> map_of ((r # out) ! i) = map_of ((d # items) ! i) |` set keys"
      using r each by (cases i) auto
  qed
  ultimately show ?case by blast
qed

lemma dict_contains_iff: "dict_contains d key \<longleftrightarrow> key \<in> fst ` set d"
  by (simp add: dict_contains_def map_of_eq_None_iff)

lemma extract_keys_member:
  assumes "extract_keys data keys = Inr out" and "r \<in> set out"
  shows "\<exists>item\<in>set data. extract_item item keys = Inr r"
proof -
  from assms(1) have l: "list_all2 (\<lambda>item r. extract_item item keys = Inr r) data out"
    by (simp add: extract_keys_Inr)
  from assms(2) obtain i where i: "i < length out" "out ! i = r"
    by (auto simp: in_set_conv_nth)
  from l i have "extract_item (data ! i) keys = Inr r" "i < length data"
    by (auto simp: list_all2_conv_all_nth)
  then show ?thesis by (metis nth_mem)
qed

lemma extract_keys_length:
  "extract_keys data keys = Inr out \<Longrightarrow> length out = length data"
  by (auto simp: extract_keys_Inr dest: list_all2_lengthD)

lemma extract_keys_no_keys:
  "extract_keys (map JObj items) [] = Inr (replicate (length items) [])"
proof -
  have "extract_loop (map JObj items) [] acc = Inr (acc @ replicate (length items) [])" for acc
  proof (induction items arbitrary: acc)
    case Nil
    then show ?case by simp
  next
    case (Cons d items)
    then show ?case by (simp add: extract_item_def replicate_app_Cons_same)
  qed
  from this [of "[]"] show ?thesis by (simp add: extract_keys_def)
qed

section \<open>Association lists as mappings\<close>

lemma subset_keys_iff:
  "set keys \<subseteq> fst ` set d \<longleftrightarrow> (\<forall>key\<in>set keys. dict_contains d key)"
  by (auto simp: dict_contains_iff)

lemma restrict_map_of_keys: "map_of d |` (fst ` set d) = map_of d"
proof
  fix x
  show "(map_of d |` (fst ` set d)) x = map_of d x"
  proof (cases "x \<in> fst ` set d")
    case True
    then show ?thesis by (simp add: restrict_map_def)
  next
    case False
    then have "map_of d x = None" by (simp add: map_of_eq_None_iff)
    with False show ?thesis by (simp add: restrict_map_def)
  qed
qed

lemma alist_eqI:
  "map fst r = map fst d \<Longrightarrow> map_of r = map_of d \<Longrightarrow> distinct (map fst d) \<Longrightarrow> r = d"
proof (induction r arbitrary: d)
  case Nil
  then show ?case by simp
next
  case (Cons p r)
  then obtain q d' where d: "d = q # d'" by (cases d) auto
  with Cons.prems have f: "fst p = fst q" "map fst r = map fst d'" "distinct (map fst d')"
    and nin: "fst q \<notin> fst ` set d'" by auto
  have e: "map_of (p # r) x = map_of (q # d') x" for x
    using Cons.prems(2) unfolding d by (rule fun_cong)
  from e [of "fst q"] f have pq: "p = q" by (cases p; cases q) auto
  have "map_of r = map_of d'"
  proof
    fix x
    show "map_of r x = map_of d' x"
    proof (cases "x = fst q")
      case True
      with nin f(2) have "x \<notin> fst ` set d'" "x \<notin> fst ` set r"
        by (auto simp flip: set_map)
      then have "map_of r x = None" "map_of d' x = None"
        by (simp_all add: map_of_eq_None_iff)
      then show ?thesis by simp
    next
      case False
      with e [of x] pq show ?thesis by (cases q) auto
    qed
  qed
  with Cons.IH [OF f(2) _ f(3)] pq d show ?case by simp
qed

section \<open>The argument resolver\<close>

lemma parse_keys_spec: "parse_keys ks = spec_keyspec ks"
  by (simp add: parse_keys_def spec_keyspec_def filter_map comp_def)

lemma str_split_nonempty: "str_split sep s \<noteq> []"
  by (induction s) (auto split: list.splits)

lemma str_split_tokens: "t \<in> set (str_split sep s) \<Longrightarrow> set t \<subseteq> set s - {sep}"
proof (induction s arbitrary: t)
  case Nil
  then show ?case by simp
next
  case (Cons c cs)
  show ?case
  proof (cases "c = sep")
    case True
    with Cons show ?thesis by auto
  next
    case False
    obtain u us where us: "str_split sep cs = u # us"
      using str_split_nonempty [of sep cs] by (cases "str_split sep cs") auto
    with False Cons.prems have "t = c # u \<or> t \<in> set us" by auto
    then show ?thesis
    proof
      assume "t = c # u"
      moreover have "set u \<subseteq> set cs - {sep}" using Cons.IH [of u] us by simp
      ultimately show ?thesis using False by auto
    next
      assume "t \<in> set us"
      then have "set t \<subseteq> set cs - {sep}" using Cons.IH [of t] us by simp
      then show ?thesis by auto
    qed
  qed
qed

lemma str_strip_blank: "\<forall>c\<in>set t. py_isspace c \<Longrightarrow> str_strip t = []"
  by (auto simp: str_strip_def dest: set_dropWhileD)

lemma parse_keys_blank:
  assumes "\<forall>c\<in>set ks. c = comma \<or> py_isspace c"
  shows "\<forall>t\<in>set (str_split comma ks). str_strip t = []"
proof
  fix t assume "t \<in> set (str_split comma ks)"
  from str_split_tokens [OF this] assms have "\<forall>c\<in>set t. py_isspace c" by auto
  then show "str_strip t = []" by (rule str_strip_blank)
qed

lemma parse_keys_Nil_iff:
  "parse_keys ks = [] \<longleftrightarrow> (\<forall>t\<in>set (str_split comma ks). str_strip t = [])"
  by (auto simp: parse_keys_def filter_empty_conv)

section \<open>How a projection fails\<close>

lemma extract_item_Inl:
  assumes "extract_item item keys = Inl e"
  shows "e = SysExit msg_not_found 1 \<or> e = SysExit msg_key_absent 1"
proof (cases item)
  case (JObj d)
  show ?thesis
  proof (cases "\<forall>key\<in>set keys. dict_contains d key")
    case True
    from extract_item_present [OF True] assms JObj show ?thesis by auto
  next
    case False
    from extract_item_absent [OF False] assms JObj show ?thesis by simp
  qed
qed (use assms in \<open>simp_all add: extract_item_def\<close>)

lemma extract_loop_Inl:
  "extract_loop data keys acc = Inl e \<Longrightarrow>
     e = SysExit msg_not_found 1 \<or> e = SysExit msg_key_absent 1"
proof (induction data arbitrary: acc)
  case Nil
  then show ?case by simp
next
  case (Cons item data)
  then show ?case
    by (cases "extract_item item keys") (auto dest: extract_item_Inl)
qed

lemma extract_keys_Inl:
  "extract_keys data keys = Inl e \<Longrightarrow>
     e = SysExit msg_not_found 1 \<or> e = SysExit msg_key_absent 1"
  unfolding extract_keys_def by (rule extract_loop_Inl)

section \<open>The stages of a run\<close>

lemma output_json_ok:
  "write_error w name (JsonDump (JArr (map JObj data))) = None \<Longrightarrow>
     output_json w data name =
       ([WriteFile name (JsonDump (JArr (map JObj data)))],
        Inr (ustr ''JSON output written to '' @ name))"
  by (simp add: output_json_def Let_def)

lemma output_csv_ok:
  "write_error w name (CsvDump keys data) = None \<Longrightarrow>
     output_csv w data keys name =
       ([WriteFile name (CsvDump keys data)], Inr (ustr ''CSV output written to '' @ name))"
  by (simp add: output_csv_def Let_def)

lemma main_mismatch:
  "int (length (parse_keys (arg_k a))) \<noteq> arg_n a \<Longrightarrow>
     main w a = \<lparr>stdout = [msg_key_count], exit_code = 1, trace = []\<rparr>"
  by (simp add: main_def resolve_keys_def)

lemma main_not_loaded:
  assumes "int (length (parse_keys (arg_k a))) = arg_n a"
    and "\<not> isfile w (path_join w (script_dir w) (arg_f a))
         \<or> json_load w (path_join w (script_dir w) (arg_f a)) = None"
  shows "main w a =
     \<lparr>stdout = [msg_not_found], exit_code = 1,
      trace = (if isfile w (path_join w (script_dir w) (arg_f a))
               then [IsFile (path_join w (script_dir w) (arg_f a)),
                     ReadJson (path_join w (script_dir w) (arg_f a))]
               else [IsFile (path_join w (script_dir w) (arg_f a))])\<rparr>"
  using assms by (auto simp: main_def resolve_keys_def load_json_file_def Let_def)

lemma main_not_list:
  assumes "int (length (parse_keys (arg_k a))) = arg_n a"
    and "isfile w (path_join w (script_dir w) (arg_f a))"
    and "json_load w (path_join w (script_dir w) (arg_f a)) = Some v"
    and "\<forall>items. v \<noteq> JArr items"
  shows "main w a =
     \<lparr>stdout = [msg_not_found], exit_code = 1,
      trace = [IsFile (path_join w (script_dir w) (arg_f a)),
               ReadJson (path_join w (script_dir w) (arg_f a))]\<rparr>"
  using assms by (cases v) (auto simp: main_def resolve_keys_def load_json_file_def Let_def)

lemma main_loaded:
  assumes "int (length (parse_keys (arg_k a))) = arg_n a"
    and "isfile w (path_join w (script_dir w) (arg_f a))"
    and "json_load w (path_join w (script_dir w) (arg_f a)) = Some (JArr items)"
  shows "main w a =
     (case extract_keys items (parse_keys (arg_k a)) of
        Inl e \<Rightarrow> stopped [IsFile (path_join w (script_dir w) (arg_f a)),
                          ReadJson (path_join w (script_dir w) (arg_f a))] e
      | Inr subset_data \<Rightarrow>
          (case (if arg_c a then output_csv w subset_data (parse_keys (arg_k a)) csv_output_name
                 else output_json w subset_data json_output_name) of
             (evs', Inl e) \<Rightarrow>
               stopped ([IsFile (path_join w (script_dir w) (arg_f a)),
                         ReadJson (path_join w (script_dir w) (arg_f a))] @ evs') e
           | (evs', Inr line) \<Rightarrow>
               \<lparr>stdout = [line], exit_code = 0,
                trace = [IsFile (path_join w (script_dir w) (arg_f a)),
                         ReadJson (path_join w (script_dir w) (arg_f a))] @ evs'\<rparr>))"
  using assms by (simp add: main_def resolve_keys_def load_json_file_def Let_def)

lemma msg_key_count_neq':
  "msg_key_count \<noteq> msg_not_found" "msg_key_count \<noteq> msg_key_absent"
  "msg_key_count \<noteq> ustr ''JSON output written to '' @ x"
  "msg_key_count \<noteq> ustr ''CSV output written to '' @ x"
  "msg_key_count \<noteq> ustr ''Error writing JSON file: '' @ x"
  "msg_key_count \<noteq> ustr ''Error writing CSV file: '' @ x"
  by (simp_all add: msg_key_count_def msg_not_found_def msg_key_absent_def ustr_def)

lemmas msg_key_count_neq = msg_key_count_neq' msg_key_count_neq' [symmetric]

lemma main_matched_stdout:
  assumes "int (length (parse_keys (arg_k a))) = arg_n a"
  shows "stdout (main w a) \<noteq> [msg_key_count]"
proof (cases "isfile w (path_join w (script_dir w) (arg_f a))")
  case False
  with main_not_loaded [OF assms, of w] show ?thesis by (simp add: msg_key_count_neq)
next
  case True
  show ?thesis
  proof (cases "json_load w (path_join w (script_dir w) (arg_f a))")
    case None
    with main_not_loaded [OF assms, of w] show ?thesis by (simp add: msg_key_count_neq)
  next
    case (Some v)
    show ?thesis
    proof (cases "\<exists>items. v = JArr items")
      case False
      with main_not_list [OF assms True Some] show ?thesis by (simp add: msg_key_count_neq)
    next
      case True
      then obtain items where v: "v = JArr items" by blast
      note m = main_loaded [OF assms \<open>isfile w _\<close> Some [unfolded v]]
      show ?thesis
      proof (cases "extract_keys items (parse_keys (arg_k a))")
        case (Inl e)
        from extract_keys_Inl [OF Inl] Inl m show ?thesis
          by (auto simp: msg_key_count_neq)
      next
        case (Inr subset_data)
        with m show ?thesis
          by (auto simp: output_csv_def output_json_def Let_def msg_key_count_neq
                   split: option.splits)
      qed
    qed
  qed
qed

section \<open>Entries of a projected record\<close>

text \<open>
  C1, as the code has it. In every successful projection the output has one record per
  input element, and every record holds the KeySpec keys in the order of their first
  occurrence, each once: its number of entries is the number of distinct KeySpec keys.
  When no key is repeated in the KeySpec, these are the KeySpec keys in KeySpec order and
  the record has exactly \<open>len(KeySpec)\<close> entries.
\<close>

theorem extract_keys_entries:
  assumes "extract_keys data keys = Inr out"
  shows "length out = length data \<and>
         (\<forall>r\<in>set out. map fst r = first_occurrences keys \<and> length r = card (set keys) \<and>
            (distinct keys \<longrightarrow> map fst r = keys \<and> length r = length keys))"
proof (intro conjI ballI)
  show "length out = length data" using assms by (rule extract_keys_length)
next
  fix r assume "r \<in> set out"
  with assms obtain item where "extract_item item keys = Inr r"
    using extract_keys_member by blast
  then have k: "map fst r = first_occurrences keys"
    using extract_item_Inr by blast
  then show "map fst r = first_occurrences keys" .
  have "length r = length (map fst r)" by simp
  also have "\<dots> = card (set keys)" by (simp only: k length_first_occurrences)
  finally show len: "length r = card (set keys)" .
  show "distinct keys \<longrightarrow> map fst r = keys \<and> length r = length keys"
    using k len by (simp add: first_occurrences_distinct distinct_card)
qed

text \<open>The theorem at the keys \<open>b, a\<close> and the list \<open>[{"a": 1, "b": 2}]\<close>.\<close>

theorem extract_keys_entries_witness:
  "extract_keys [JObj [(ustr ''a'', JInt 1), (ustr ''b'', JInt 2)]] [ustr ''b'', ustr ''a'']
     = Inr [[(ustr ''b'', JInt 2), (ustr ''a'', JInt 1)]] \<and>
   length [[(ustr ''b'', JInt 2), (ustr ''a'', JInt 1)]]
     = length [JObj [(ustr ''a'', JInt 1), (ustr ''b'', JInt 2)]] \<and>
   map fst [(ustr ''b'', JInt 2), (ustr ''a'', JInt 1)]
     = first_occurrences [ustr ''b'', ustr ''a''] \<and>
   length [(ustr ''b'', JInt 2), (ustr ''a'', JInt 1)] = card (set [ustr ''b'', ustr ''a'']) \<and>
   distinct [ustr ''b'', ustr ''a''] \<and>
   map fst [(ustr ''b'', JInt 2), (ustr ''a'', JInt 1)] = [ustr ''b'', ustr ''a''] \<and>
   length [(ustr ''b'', JInt 2), (ustr ''a'', JInt 1)] = length [ustr ''b'', ustr ''a'']"
proof -
  have h: "extract_keys [JObj [(ustr ''a'', JInt 1), (ustr ''b'', JInt 2)]] [ustr ''b'', ustr ''a'']
     = Inr [[(ustr ''b'', JInt 2), (ustr ''a'', JInt 1)]]"
    by (simp add: extract_keys_def extract_item_def dict_contains_def ustr_def)
  have d: "distinct [ustr ''b'', ustr ''a'']"
    by (simp add: ustr_def)
  from extract_keys_entries [OF h] h d show ?thesis by simp
qed

text \<open>
  With a repeated key the count differs: \<open>-n 2 -k "a,a"\<close> on \<open>[{"a": 1}]\<close> is a successful
  run whose only record has one entry, while the KeySpec has two.
\<close>

theorem extract_keys_entries_counterexample:
  "main (example_world (Some (JArr [JObj [(ustr ''a'', JInt 1)]])))
        (example_args ''input.json'' 2 ''a,a'' False)
     = \<lparr>stdout = [ustr ''JSON output written to json_output.json''], exit_code = 0,
        trace = [IsFile (ustr ''/app/input.json''), ReadJson (ustr ''/app/input.json''),
                 WriteFile (ustr ''json_output.json'')
                   (JsonDump (JArr [JObj [(ustr ''a'', JInt 1)]]))]\<rparr> \<and>
   extract_keys [JObj [(ustr ''a'', JInt 1)]] [ustr ''a'', ustr ''a'']
     = Inr [[(ustr ''a'', JInt 1)]] \<and>
   length [(ustr ''a'', JInt 1)] \<noteq> length [ustr ''a'', ustr ''a'']"
  by (simp add: main_def resolve_keys_def parse_keys_def str_strip_def py_isspace_def comma_def
      load_json_file_def example_world_def example_args_def extract_keys_def extract_item_def
      dict_contains_def output_json_def json_output_name_def ustr_def Let_def)

section \<open>The key-count check\<close>

text \<open>
  C2. The KeySpec computed by the code is the one of the specification: the \<open>-k\<close> string
  split on commas, each token trimmed, the tokens that are empty after trimming dropped.
  The resolver stops with the key-count message and code 1 when the length of that
  sequence differs from \<open>-n\<close>, and returns the sequence otherwise; a run ends with that
  message and code 1 exactly when the length differs from \<open>-n\<close>.
\<close>

theorem resolve_keys_spec:
  "parse_keys (arg_k a) = spec_keyspec (arg_k a) \<and>
   resolve_keys a =
     (if int (length (spec_keyspec (arg_k a))) \<noteq> arg_n a
      then Inl (SysExit msg_key_count 1) else Inr (spec_keyspec (arg_k a))) \<and>
   ((stdout (main w a) = [msg_key_count] \<and> exit_code (main w a) = 1)
      \<longleftrightarrow> int (length (spec_keyspec (arg_k a))) \<noteq> arg_n a)"
proof (intro conjI)
  show "parse_keys (arg_k a) = spec_keyspec (arg_k a)" by (rule parse_keys_spec)
  show "resolve_keys a =
     (if int (length (spec_keyspec (arg_k a))) \<noteq> arg_n a
      then Inl (SysExit msg_key_count 1) else Inr (spec_keyspec (arg_k a)))"
    by (simp add: resolve_keys_def parse_keys_spec)
  show "(stdout (main w a) = [msg_key_count] \<and> exit_code (main w a) = 1)
      \<longleftrightarrow> int (length (spec_keyspec (arg_k a))) \<noteq> arg_n a"
  proof (cases "int (length (parse_keys (arg_k a))) = arg_n a")
    case True
    from main_matched_stdout [OF True, of w] True show ?thesis
      by (simp add: parse_keys_spec)
  next
    case False
    from main_mismatch [OF False, of w] False show ?thesis
      by (simp add: parse_keys_spec)
  qed
qed

text \<open>
  The theorem at \<open>-k " a, b,,"\<close>: the KeySpec is \<open>a, b\<close>; \<open>-n 2\<close> passes the check and \<open>-n 3\<close>
  does not.
\<close>

theorem resolve_keys_spec_witness:
  "parse_keys (ustr '' a, b,,'') = [ustr ''a'', ustr ''b''] \<and>
   spec_keyspec (ustr '' a, b,,'') = [ustr ''a'', ustr ''b''] \<and>
   resolve_keys (example_args ''input.json'' 2 '' a, b,,'' False) = Inr [ustr ''a'', ustr ''b''] \<and>
   resolve_keys (example_args ''input.json'' 3 '' a, b,,'' False) = Inl (SysExit msg_key_count 1) \<and>
   stdout (main (example_world None) (example_args ''input.json'' 3 '' a, b,,'' False))
     = [msg_key_count] \<and>
   exit_code (main (example_world None) (example_args ''input.json'' 3 '' a, b,,'' False)) = 1"
proof -
  have s: "spec_keyspec (ustr '' a, b,,'') = [ustr ''a'', ustr ''b'']"
    by (simp add: spec_keyspec_def str_strip_def py_isspace_def comma_def ustr_def)
  from resolve_keys_spec [of "example_args ''input.json'' 2 '' a, b,,'' False" "example_world None"]
    resolve_keys_spec [of "example_args ''input.json'' 3 '' a, b,,'' False" "example_world None"]
    s
  show ?thesis by (simp add: example_args_def)
qed

text \<open>
  C7. When the number of comma-split, trimmed, non-empty tokens of \<open>-k\<close> differs from
  \<open>-n\<close>, the run prints the key-count message, exits with code 1 and has made no file
  access: the input file is neither tested nor read, and nothing is written.
\<close>

theorem main_key_count_mismatch:
  assumes "int (length (spec_keyspec (arg_k a))) \<noteq> arg_n a"
  shows "main w a = \<lparr>stdout = [msg_key_count], exit_code = 1, trace = []\<rparr>"
  using assms main_mismatch [of a w] by (simp add: parse_keys_spec)

text \<open>The theorem at \<open>-n 1 -k "a,c"\<close>, where the input file exists and holds a list.\<close>

theorem main_key_count_mismatch_witness:
  "int (length (spec_keyspec (ustr ''a,c''))) \<noteq> 1 \<and>
   main (example_world (Some (JArr []))) (example_args ''input.json'' 1 ''a,c'' False)
     = \<lparr>stdout = [ustr ''Number of keys provided does not match the -n argument!''],
        exit_code = 1, trace = []\<rparr>"
proof -
  have h: "int (length (spec_keyspec (arg_k (example_args ''input.json'' 1 ''a,c'' False))))
             \<noteq> arg_n (example_args ''input.json'' 1 ''a,c'' False)"
    by (simp add: example_args_def spec_keyspec_def str_strip_def py_isspace_def comma_def ustr_def)
  from main_key_count_mismatch [OF h, of "example_world (Some (JArr []))"] h
  show ?thesis by (simp add: example_args_def msg_key_count_def)
qed

section \<open>The loader\<close>

text \<open>
  C6. In a run that has passed the key-count check, each of three causes ends the run
  with the one line \<open>JSON FILE NOT FOUND!\<close> and exit code 1, and nothing is written:
  no file at the path joined from the program's directory and \<open>-f\<close>; a file there that
  cannot be opened or parsed as JSON; a parsed value that is not a list. In the first
  two, it is \<open>load_json_file\<close> that stops the run.
\<close>

theorem main_file_error:
  assumes "int (length (parse_keys (arg_k a))) = arg_n a"
    and "\<not> isfile w (path_join w (script_dir w) (arg_f a))
         \<or> json_load w (path_join w (script_dir w) (arg_f a)) = None
         \<or> (\<exists>v. json_load w (path_join w (script_dir w) (arg_f a)) = Some v
                \<and> (\<forall>items. v \<noteq> JArr items))"
  shows "stdout (main w a) = [msg_not_found] \<and> exit_code (main w a) = 1 \<and>
         (\<forall>name doc. WriteFile name doc \<notin> set (trace (main w a))) \<and>
         (\<not> isfile w (path_join w (script_dir w) (arg_f a))
            \<or> json_load w (path_join w (script_dir w) (arg_f a)) = None
          \<longrightarrow> snd (load_json_file w (arg_f a)) = Inl (SysExit msg_not_found 1))"
proof -
  have l: "\<not> isfile w (path_join w (script_dir w) (arg_f a))
            \<or> json_load w (path_join w (script_dir w) (arg_f a)) = None
          \<longrightarrow> snd (load_json_file w (arg_f a)) = Inl (SysExit msg_not_found 1)"
    by (auto simp: load_json_file_def Let_def)
  show ?thesis
  proof (cases "\<not> isfile w (path_join w (script_dir w) (arg_f a))
         \<or> json_load w (path_join w (script_dir w) (arg_f a)) = None")
    case True
    from main_not_loaded [OF assms(1) True] l show ?thesis by simp
  next
    case False
    with assms(2) obtain v where
      v: "json_load w (path_join w (script_dir w) (arg_f a)) = Some v" "\<forall>items. v \<noteq> JArr items"
      by blast
    from False have "isfile w (path_join w (script_dir w) (arg_f a))" by simp
    from main_not_list [OF assms(1) this v] l show ?thesis by simp
  qed
qed

text \<open>
  The theorem at \<open>-n 1 -k "a"\<close> in three environments: \<open>-f other.json\<close>, which does not
  exist; \<open>input.json\<close> holding text that is not JSON; \<open>input.json\<close> holding the object
  \<open>{}\<close>.
\<close>

theorem main_file_error_witness:
  "stdout (main (example_world (Some (JArr []))) (example_args ''other.json'' 1 ''a'' False))
     = [ustr ''JSON FILE NOT FOUND!''] \<and>
   exit_code (main (example_world (Some (JArr []))) (example_args ''other.json'' 1 ''a'' False)) = 1 \<and>
   stdout (main (example_world None) (example_args ''input.json'' 1 ''a'' False))
     = [ustr ''JSON FILE NOT FOUND!''] \<and>
   exit_code (main (example_world None) (example_args ''input.json'' 1 ''a'' False)) = 1 \<and>
   stdout (main (example_world (Some (JObj []))) (example_args ''input.json'' 1 ''a'' False))
     = [ustr ''JSON FILE NOT FOUND!''] \<and>
   exit_code (main (example_world (Some (JObj []))) (example_args ''input.json'' 1 ''a'' False)) = 1"
proof -
  have k: "\<And>name. int (length (parse_keys (arg_k (example_args name 1 ''a'' False))))
             = arg_n (example_args name 1 ''a'' False)"
    by (simp add: example_args_def parse_keys_def str_strip_def py_isspace_def comma_def ustr_def)
  let ?p = "\<lambda>w a. path_join w (script_dir w) (arg_f a)"
  let ?cause = "\<lambda>w a. \<not> isfile w (?p w a) \<or> json_load w (?p w a) = None
         \<or> (\<exists>v. json_load w (?p w a) = Some v \<and> (\<forall>items. v \<noteq> JArr items))"
  have c1: "?cause (example_world (Some (JArr []))) (example_args ''other.json'' 1 ''a'' False)"
    by (simp add: example_world_def example_args_def ustr_def)
  have c2: "?cause (example_world None) (example_args ''input.json'' 1 ''a'' False)"
    by (simp add: example_world_def example_args_def ustr_def)
  have c3: "?cause (example_world (Some (JObj []))) (example_args ''input.json'' 1 ''a'' False)"
    by (simp add: example_world_def example_args_def ustr_def)
  from main_file_error [OF k c1] main_file_error [OF k c2] main_file_error [OF k c3]
  show ?thesis
    by (simp add: msg_not_found_def)
qed

section \<open>Length and order of the projected list\<close>

text \<open>
  C4. When every element of the input list is an object that contains every KeySpec
  key, the projection returns a list of the same length, whose i-th element is what the
  loop body makes of the i-th input element alone: the record with the KeySpec keys, in
  the order of their first occurrence, each with the value the input object has for it.
\<close>

theorem extract_keys_length_order:
  assumes "\<forall>d\<in>set items. set keys \<subseteq> fst ` set d"
  shows "\<exists>out. extract_keys (map JObj items) keys = Inr out \<and>
           length out = length items \<and>
           (\<forall>i<length items.
              extract_item (JObj (items ! i)) keys = Inr (out ! i) \<and>
              map fst (out ! i) = first_occurrences keys \<and>
              map_of (out ! i) = map_of (items ! i) |` set keys)"
  using assms extract_keys_objects [of items keys] by (simp add: subset_keys_iff)

text \<open>The theorem at the keys \<open>c, a\<close> and the list \<open>[{"a": 1, "c": 3}, {"c": 4, "b": 5, "a": 6}]\<close>.\<close>

theorem extract_keys_length_order_witness:
  "extract_keys (map JObj [[(ustr ''a'', JInt 1), (ustr ''c'', JInt 3)],
                           [(ustr ''c'', JInt 4), (ustr ''b'', JInt 5), (ustr ''a'', JInt 6)]])
                [ustr ''c'', ustr ''a'']
     = Inr [[(ustr ''c'', JInt 3), (ustr ''a'', JInt 1)],
            [(ustr ''c'', JInt 4), (ustr ''a'', JInt 6)]] \<and>
   extract_item (JObj [(ustr ''a'', JInt 1), (ustr ''c'', JInt 3)]) [ustr ''c'', ustr ''a'']
     = Inr [(ustr ''c'', JInt 3), (ustr ''a'', JInt 1)] \<and>
   extract_item (JObj [(ustr ''c'', JInt 4), (ustr ''b'', JInt 5), (ustr ''a'', JInt 6)])
                [ustr ''c'', ustr ''a'']
     = Inr [(ustr ''c'', JInt 4), (ustr ''a'', JInt 6)]"
proof -
  let ?items = "[[(ustr ''a'', JInt 1), (ustr ''c'', JInt 3)],
                 [(ustr ''c'', JInt 4), (ustr ''b'', JInt 5), (ustr ''a'', JInt 6)]]"
  let ?keys = "[ustr ''c'', ustr ''a'']"
  have h: "\<forall>d\<in>set ?items. set ?keys \<subseteq> fst ` set d"
    by (simp add: ustr_def)
  from extract_keys_length_order [OF h]
  obtain out where out: "extract_keys (map JObj ?items) ?keys = Inr out"
    and len: "length out = length ?items"
    and each: "\<forall>i<length ?items. extract_item (JObj (?items ! i)) ?keys = Inr (out ! i)"
    by blast
  from len obtain r0 r1 where o: "out = [r0, r1]"
    by (cases out; cases "tl out") auto
  from each have "0 < length ?items \<longrightarrow> extract_item (JObj (?items ! 0)) ?keys = Inr (out ! 0)"
    and "1 < length ?items \<longrightarrow> extract_item (JObj (?items ! 1)) ?keys = Inr (out ! 1)"
    by blast+
  then have "extract_item (JObj (?items ! 0)) ?keys = Inr r0"
    and "extract_item (JObj (?items ! 1)) ?keys = Inr r1"
    unfolding o by simp_all
  moreover from this have "r0 = [(ustr ''c'', JInt 3), (ustr ''a'', JInt 1)]"
    and "r1 = [(ustr ''c'', JInt 4), (ustr ''a'', JInt 6)]"
    by (simp_all add: extract_item_def dict_contains_def ustr_def)
  ultimately show ?thesis using out o by simp
qed

section \<open>Round trip\<close>

text \<open>
  C5. When the KeySpec keys are exactly the keys of every object of the input list, the
  projection succeeds and each projected record is, as a mapping from keys to values,
  equal to the input object at the same position. If moreover the KeySpec lists the
  keys of an object in the object's own order, the projected record is that object.
\<close>

theorem extract_keys_round_trip:
  assumes "\<forall>d\<in>set items. set keys = fst ` set d"
  shows "\<exists>out. extract_keys (map JObj items) keys = Inr out \<and>
           length out = length items \<and>
           (\<forall>i<length items.
              map_of (out ! i) = map_of (items ! i) \<and>
              (keys = map fst (items ! i) \<and> distinct keys \<longrightarrow> out ! i = items ! i))"
proof -
  from assms have "\<forall>d\<in>set items. \<forall>key\<in>set keys. dict_contains d key"
    by (auto simp: dict_contains_iff)
  from extract_keys_objects [OF this]
  obtain out where out: "extract_keys (map JObj items) keys = Inr out"
    and len: "length out = length items"
    and each: "\<forall>i<length items.
                 map fst (out ! i) = first_occurrences keys
               \<and> map_of (out ! i) = map_of (items ! i) |` set keys"
    by blast
  have "map_of (out ! i) = map_of (items ! i) \<and>
        (keys = map fst (items ! i) \<and> distinct keys \<longrightarrow> out ! i = items ! i)"
    if i: "i < length items" for i
  proof -
    from i assms have k: "set keys = fst ` set (items ! i)" by simp
    from each i have m: "map_of (out ! i) = map_of (items ! i)"
      by (simp add: k restrict_map_of_keys)
    from each i have f: "map fst (out ! i) = first_occurrences keys" by simp
    show ?thesis
      using m f by (auto simp: first_occurrences_distinct intro: alist_eqI)
  qed
  with out len show ?thesis by blast
qed

text \<open>The theorem at the keys \<open>a, b\<close> and the list \<open>[{"a": 1, "b": 2}, {"b": 3, "a": 4}]\<close>.\<close>

theorem extract_keys_round_trip_witness:
  "extract_keys (map JObj [[(ustr ''a'', JInt 1), (ustr ''b'', JInt 2)],
                           [(ustr ''b'', JInt 3), (ustr ''a'', JInt 4)]])
                [ustr ''a'', ustr ''b'']
     = Inr [[(ustr ''a'', JInt 1), (ustr ''b'', JInt 2)],
            [(ustr ''a'', JInt 4), (ustr ''b'', JInt 3)]] \<and>
   map_of [(ustr ''a'', JInt 1), (ustr ''b'', JInt 2)]
     = map_of [(ustr ''a'', JInt 1), (ustr ''b'', JInt 2)] \<and>
   map_of [(ustr ''a'', JInt 4), (ustr ''b'', JInt 3)]
     = map_of [(ustr ''b'', JInt 3), (ustr ''a'', JInt 4)]"
proof -
  let ?items = "[[(ustr ''a'', JInt 1), (ustr ''b'', JInt 2)],
                 [(ustr ''b'', JInt 3), (ustr ''a'', JInt 4)]]"
  let ?keys = "[ustr ''a'', ustr ''b'']"
  have h: "\<forall>d\<in>set ?items. set ?keys = fst ` set d"
    by (auto simp: ustr_def)
  have e: "extract_keys (map JObj ?items) ?keys
     = Inr [[(ustr ''a'', JInt 1), (ustr ''b'', JInt 2)],
            [(ustr ''a'', JInt 4), (ustr ''b'', JInt 3)]]"
    by (simp add: extract_keys_def extract_item_def dict_contains_def ustr_def)
  from extract_keys_round_trip [OF h] e
  have "\<forall>i<length ?items.
          map_of ([[(ustr ''a'', JInt 1), (ustr ''b'', JInt 2)],
                   [(ustr ''a'', JInt 4), (ustr ''b'', JInt 3)]] ! i) = map_of (?items ! i)"
    by auto
  then have "1 < length ?items \<longrightarrow>
          map_of ([[(ustr ''a'', JInt 1), (ustr ''b'', JInt 2)],
                   [(ustr ''a'', JInt 4), (ustr ''b'', JInt 3)]] ! 1) = map_of (?items ! 1)"
    by blast
  with e show ?thesis by (simp del: map_of.simps)
qed

section \<open>A key that is absent\<close>

text \<open>
  C3. In a run that has passed the key-count check and has loaded a list of objects, if
  some KeySpec key is absent from some object of the list, the run prints
  \<open>Requested KEY(s) not present in input file!\<close>, exits with code 1, and its only file
  accesses are the test and the read of the input file: nothing is written. The
  projection stops at the first object that lacks a key, whatever follows it in the list.
\<close>

theorem main_key_absent:
  assumes "int (length (parse_keys (arg_k a))) = arg_n a"
    and "isfile w (path_join w (script_dir w) (arg_f a))"
    and "json_load w (path_join w (script_dir w) (arg_f a)) = Some (JArr (map JObj items))"
    and "\<exists>d\<in>set items. \<not> set (parse_keys (arg_k a)) \<subseteq> fst ` set d"
  shows "main w a =
           \<lparr>stdout = [msg_key_absent], exit_code = 1,
            trace = [IsFile (path_join w (script_dir w) (arg_f a)),
                     ReadJson (path_join w (script_dir w) (arg_f a))]\<rparr> \<and>
         (\<exists>pre bad rest. items = pre @ bad # rest \<and>
            (\<forall>d\<in>set pre. set (parse_keys (arg_k a)) \<subseteq> fst ` set d) \<and>
            \<not> set (parse_keys (arg_k a)) \<subseteq> fst ` set bad \<and>
            (\<forall>rest'. extract_keys (map JObj pre @ JObj bad # rest') (parse_keys (arg_k a))
                      = Inl (SysExit msg_key_absent 1)))"
proof -
  let ?keys = "parse_keys (arg_k a)"
  from split_list_first_prop [OF assms(4)]
  obtain pre bad rest where items: "items = pre @ bad # rest"
    and bad: "\<not> set ?keys \<subseteq> fst ` set bad"
    and pre: "\<forall>d\<in>set pre. \<not> \<not> set ?keys \<subseteq> fst ` set d"
    by blast
  from pre have pre': "\<forall>d\<in>set pre. \<forall>key\<in>set ?keys. dict_contains d key"
    by (simp add: subset_keys_iff)
  from bad have "extract_item (JObj bad) ?keys = Inl (SysExit msg_key_absent 1)"
    by (intro extract_item_absent) (simp add: subset_keys_iff)
  from extract_keys_first_failure [OF pre' this]
  have stop: "extract_keys (map JObj pre @ JObj bad # rest') ?keys = Inl (SysExit msg_key_absent 1)"
    for rest' .
  from stop [of "map JObj rest"] items
  have "extract_keys (map JObj items) ?keys = Inl (SysExit msg_key_absent 1)" by simp
  with main_loaded [OF assms(1,2,3)]
  have "main w a =
           \<lparr>stdout = [msg_key_absent], exit_code = 1,
            trace = [IsFile (path_join w (script_dir w) (arg_f a)),
                     ReadJson (path_join w (script_dir w) (arg_f a))]\<rparr>"
    by simp
  with items bad pre stop show ?thesis by blast
qed

text \<open>
  The theorem at \<open>-n 2 -k "a,z"\<close> on the list \<open>[{"a": 1, "b": 2, "c": 3}]\<close>.
\<close>

theorem main_key_absent_witness:
  "main (example_world (Some (JArr (map JObj
           [[(ustr ''a'', JInt 1), (ustr ''b'', JInt 2), (ustr ''c'', JInt 3)]]))))
        (example_args ''input.json'' 2 ''a,z'' False)
     = \<lparr>stdout = [ustr ''Requested KEY(s) not present in input file!''], exit_code = 1,
        trace = [IsFile (ustr ''/app/input.json''), ReadJson (ustr ''/app/input.json'')]\<rparr>"
proof -
  let ?items = "[[(ustr ''a'', JInt 1), (ustr ''b'', JInt 2), (ustr ''c'', JInt 3)]]"
  let ?w = "example_world (Some (JArr (map JObj ?items)))"
  let ?a = "example_args ''input.json'' 2 ''a,z'' False"
  have k: "parse_keys (arg_k ?a) = [ustr ''a'', ustr ''z'']"
    by (simp add: example_args_def parse_keys_def str_strip_def py_isspace_def comma_def ustr_def)
  have h1: "int (length (parse_keys (arg_k ?a))) = arg_n ?a"
    unfolding k by (simp add: example_args_def)
  have h2: "isfile ?w (path_join ?w (script_dir ?w) (arg_f ?a))"
    by (simp add: example_world_def example_args_def ustr_def)
  have h3: "json_load ?w (path_join ?w (script_dir ?w) (arg_f ?a)) = Some (JArr (map JObj ?items))"
    by (simp add: example_world_def example_args_def ustr_def)
  have h4: "\<exists>d\<in>set ?items. \<not> set (parse_keys (arg_k ?a)) \<subseteq> fst ` set d"
    unfolding k by (simp add: ustr_def)
  have p: "path_join ?w (script_dir ?w) (arg_f ?a) = ustr ''/app/input.json''"
    by (simp add: example_world_def example_args_def ustr_def)
  from main_key_absent [OF h1 h2 h3 h4] show ?thesis
    unfolding p by (simp add: msg_key_absent_def)
qed

section \<open>The scenario of the specification\<close>

text \<open>
  C8. With \<open>-n 2 -k "a,c"\<close> and no \<open>-c\<close>, an input file that holds
  \<open>[{"a": 1, "b": 2, "c": 3}]\<close> and an output file that can be written, the run succeeds:
  it writes the list \<open>[{"a": 1, "c": 3}]\<close> as JSON to \<open>json_output.json\<close>, prints the
  confirmation and exits with code 0.
\<close>

theorem main_scenario:
  assumes "arg_n a = 2" and "arg_k a = ustr ''a,c''" and "\<not> arg_c a"
    and "isfile w (path_join w (script_dir w) (arg_f a))"
    and "json_load w (path_join w (script_dir w) (arg_f a))
           = Some (JArr [JObj [(ustr ''a'', JInt 1), (ustr ''b'', JInt 2), (ustr ''c'', JInt 3)]])"
    and "write_error w (ustr ''json_output.json'')
           (JsonDump (JArr [JObj [(ustr ''a'', JInt 1), (ustr ''c'', JInt 3)]])) = None"
  shows "main w a =
           \<lparr>stdout = [ustr ''JSON output written to json_output.json''], exit_code = 0,
            trace = [IsFile (path_join w (script_dir w) (arg_f a)),
                     ReadJson (path_join w (script_dir w) (arg_f a)),
                     WriteFile (ustr ''json_output.json'')
                       (JsonDump (JArr [JObj [(ustr ''a'', JInt 1), (ustr ''c'', JInt 3)]]))]\<rparr>"
proof -
  have k: "parse_keys (arg_k a) = [ustr ''a'', ustr ''c'']"
    by (simp add: assms(2) parse_keys_def str_strip_def py_isspace_def comma_def ustr_def)
  have n: "int (length (parse_keys (arg_k a))) = arg_n a"
    by (simp add: k assms(1))
  have e: "extract_keys [JObj [(ustr ''a'', JInt 1), (ustr ''b'', JInt 2), (ustr ''c'', JInt 3)]]
             [ustr ''a'', ustr ''c''] = Inr [[(ustr ''a'', JInt 1), (ustr ''c'', JInt 3)]]"
    by (simp add: extract_keys_def extract_item_def dict_contains_def ustr_def)
  have o: "output_json w [[(ustr ''a'', JInt 1), (ustr ''c'', JInt 3)]] json_output_name =
       ([WriteFile json_output_name
           (JsonDump (JArr (map JObj [[(ustr ''a'', JInt 1), (ustr ''c'', JInt 3)]])))],
        Inr (ustr ''JSON output written to '' @ json_output_name))"
    by (rule output_json_ok) (simp add: assms(6) json_output_name_def)
  from main_loaded [OF n assms(4,5)] show ?thesis
    unfolding k e by (simp add: assms(3) o) (simp add: json_output_name_def ustr_def)
qed

text \<open>The scenario in the example environment.\<close>

theorem main_scenario_witness:
  "main (example_world
           (Some (JArr [JObj [(ustr ''a'', JInt 1), (ustr ''b'', JInt 2), (ustr ''c'', JInt 3)]])))
        (example_args ''input.json'' 2 ''a,c'' False)
     = \<lparr>stdout = [ustr ''JSON output written to json_output.json''], exit_code = 0,
        trace = [IsFile (ustr ''/app/input.json''), ReadJson (ustr ''/app/input.json''),
                 WriteFile (ustr ''json_output.json'')
                   (JsonDump (JArr [JObj [(ustr ''a'', JInt 1), (ustr ''c'', JInt 3)]]))]\<rparr>"
proof -
  let ?w = "example_world
           (Some (JArr [JObj [(ustr ''a'', JInt 1), (ustr ''b'', JInt 2), (ustr ''c'', JInt 3)]]))"
  let ?a = "example_args ''input.json'' 2 ''a,c'' False"
  have p: "path_join ?w (script_dir ?w) (arg_f ?a) = ustr ''/app/input.json''"
    by (simp add: example_world_def example_args_def ustr_def)
  have h1: "arg_n ?a = 2" and h2: "arg_k ?a = ustr ''a,c''" and h3: "\<not> arg_c ?a"
    by (simp_all add: example_args_def)
  have h4: "isfile ?w (path_join ?w (script_dir ?w) (arg_f ?a))"
    unfolding p by (simp add: example_world_def)
  have h5: "json_load ?w (path_join ?w (script_dir ?w) (arg_f ?a))
           = Some (JArr [JObj [(ustr ''a'', JInt 1), (ustr ''b'', JInt 2), (ustr ''c'', JInt 3)]])"
    unfolding p by (simp add: example_world_def)
  have h6: "write_error ?w (ustr ''json_output.json'')
           (JsonDump (JArr [JObj [(ustr ''a'', JInt 1), (ustr ''c'', JInt 3)]])) = None"
    by (simp add: example_world_def)
  from main_scenario [OF h1 h2 h3 h4 h5 h6] show ?thesis
    unfolding p .
qed

section \<open>Repeated keys\<close>

text \<open>
  C9. When the KeySpec repeats a key and every object of the input list contains every
  KeySpec key, the projection succeeds, and every projected record has one entry for
  each distinct KeySpec key: its keys are distinct, they are the KeySpec keys, and the
  record has fewer entries than the KeySpec has keys.
\<close>

theorem extract_keys_duplicate_keys:
  assumes "\<not> distinct keys" and "\<forall>d\<in>set items. set keys \<subseteq> fst ` set d"
  shows "\<exists>out. extract_keys (map JObj items) keys = Inr out \<and>
           length out = length items \<and>
           (\<forall>r\<in>set out. distinct (map fst r) \<and> set (map fst r) = set keys \<and>
              length r = card (set keys) \<and> length r < length keys)"
proof -
  from assms(2) have "\<forall>d\<in>set items. \<forall>key\<in>set keys. dict_contains d key"
    by (simp add: subset_keys_iff)
  from extract_keys_objects [OF this]
  obtain out where out: "extract_keys (map JObj items) keys = Inr out"
    and len: "length out = length items"
    by blast
  have "distinct (map fst r) \<and> set (map fst r) = set keys \<and>
        length r = card (set keys) \<and> length r < length keys"
    if "r \<in> set out" for r
  proof -
    from extract_keys_member [OF out that] obtain item where "extract_item item keys = Inr r"
      by blast
    then have k: "map fst r = first_occurrences keys"
      using extract_item_Inr by blast
    have l: "length r = length (first_occurrences keys)"
      using k by (metis length_map)
    show ?thesis
      unfolding l unfolding k
      using assms(1)
      by (simp add: distinct_first_occurrences set_first_occurrences length_first_occurrences
          length_first_occurrences_less [unfolded length_first_occurrences])
  qed
  with out len show ?thesis by blast
qed

text \<open>The theorem at the keys \<open>a, b, a\<close> and the list \<open>[{"b": 2, "a": 1}]\<close>.\<close>

theorem extract_keys_duplicate_keys_witness:
  "\<not> distinct [ustr ''a'', ustr ''b'', ustr ''a''] \<and>
   extract_keys (map JObj [[(ustr ''b'', JInt 2), (ustr ''a'', JInt 1)]])
                [ustr ''a'', ustr ''b'', ustr ''a'']
     = Inr [[(ustr ''a'', JInt 1), (ustr ''b'', JInt 2)]] \<and>
   length [(ustr ''a'', JInt 1), (ustr ''b'', JInt 2)]
     < length [ustr ''a'', ustr ''b'', ustr ''a'']"
proof -
  let ?items = "[[(ustr ''b'', JInt 2), (ustr ''a'', JInt 1)]]"
  let ?keys = "[ustr ''a'', ustr ''b'', ustr ''a'']"
  have h1: "\<not> distinct ?keys" by simp
  have h2: "\<forall>d\<in>set ?items. set ?keys \<subseteq> fst ` set d" by (simp add: ustr_def)
  have e: "extract_keys (map JObj ?items) ?keys = Inr [[(ustr ''a'', JInt 1), (ustr ''b'', JInt 2)]]"
    by (simp add: extract_keys_def extract_item_def dict_contains_def ustr_def)
  from extract_keys_duplicate_keys [OF h1 h2] e h1 show ?thesis by simp
qed

section \<open>An empty KeySpec\<close>

text \<open>
  C10. When \<open>-n\<close> is 0 and every comma-separated token of \<open>-k\<close> is empty after trimming
  (as it is when \<open>-k\<close> consists of commas and whitespace only), the key-count check passes
  with the empty KeySpec. On any input list of objects, whatever their keys, the
  projection then gives one empty record per element, and, the output file being
  writable, the run writes them in the chosen format and exits with code 0.
\<close>

theorem main_no_keys:
  assumes "arg_n a = 0"
    and "(\<forall>t\<in>set (str_split comma (arg_k a)). str_strip t = [])
         \<or> (\<forall>c\<in>set (arg_k a). c = comma \<or> py_isspace c)"
    and "isfile w (path_join w (script_dir w) (arg_f a))"
    and "json_load w (path_join w (script_dir w) (arg_f a)) = Some (JArr (map JObj items))"
    and "write_error w (if arg_c a then csv_output_name else json_output_name)
           (if arg_c a then CsvDump [] (replicate (length items) [])
            else JsonDump (JArr (replicate (length items) (JObj [])))) = None"
  shows "resolve_keys a = Inr [] \<and>
         extract_keys (map JObj items) [] = Inr (replicate (length items) []) \<and>
         main w a =
           \<lparr>stdout = [if arg_c a then ustr ''CSV output written to json_output.csv''
                       else ustr ''JSON output written to json_output.json''],
            exit_code = 0,
            trace = [IsFile (path_join w (script_dir w) (arg_f a)),
                     ReadJson (path_join w (script_dir w) (arg_f a)),
                     WriteFile (if arg_c a then ustr ''json_output.csv''
                                else ustr ''json_output.json'')
                       (if arg_c a then CsvDump [] (replicate (length items) [])
                        else JsonDump (JArr (replicate (length items) (JObj []))))]\<rparr>"
proof -
  from assms(2) parse_keys_blank [of "arg_k a"]
  have "\<forall>t\<in>set (str_split comma (arg_k a)). str_strip t = []" by blast
  then have k: "parse_keys (arg_k a) = []" by (simp add: parse_keys_Nil_iff)
  have n: "int (length (parse_keys (arg_k a))) = arg_n a" by (simp add: k assms(1))
  have r: "resolve_keys a = Inr []" by (simp add: resolve_keys_def k assms(1))
  note e = extract_keys_no_keys [of items]
  have m: "main w a =
           \<lparr>stdout = [if arg_c a then ustr ''CSV output written to json_output.csv''
                       else ustr ''JSON output written to json_output.json''],
            exit_code = 0,
            trace = [IsFile (path_join w (script_dir w) (arg_f a)),
                     ReadJson (path_join w (script_dir w) (arg_f a)),
                     WriteFile (if arg_c a then ustr ''json_output.csv''
                                else ustr ''json_output.json'')
                       (if arg_c a then CsvDump [] (replicate (length items) [])
                        else JsonDump (JArr (replicate (length items) (JObj []))))]\<rparr>"
  proof (cases "arg_c a")
    case True
    with assms(5) have "write_error w csv_output_name (CsvDump [] (replicate (length items) [])) = None"
      by simp
    from output_csv_ok [OF this] main_loaded [OF n assms(3,4)] True show ?thesis
      unfolding k e by (simp add: csv_output_name_def ustr_def)
  next
    case False
    with assms(5) have "write_error w json_output_name
        (JsonDump (JArr (map JObj (replicate (length items) [])))) = None"
      by simp
    from output_json_ok [OF this] main_loaded [OF n assms(3,4)] False show ?thesis
      unfolding k e by (simp add: json_output_name_def ustr_def)
  qed
  from r e m show ?thesis by blast
qed

text \<open>
  The theorem at \<open>-n 0 -k " , ,"\<close> on the list \<open>[{"a": 1}, {}]\<close>, for JSON output.
\<close>

theorem main_no_keys_witness:
  "resolve_keys (example_args ''input.json'' 0 '' , ,'' False) = Inr [] \<and>
   main (example_world (Some (JArr (map JObj [[(ustr ''a'', JInt 1)], []]))))
        (example_args ''input.json'' 0 '' , ,'' False)
     = \<lparr>stdout = [ustr ''JSON output written to json_output.json''], exit_code = 0,
        trace = [IsFile (ustr ''/app/input.json''), ReadJson (ustr ''/app/input.json''),
                 WriteFile (ustr ''json_output.json'') (JsonDump (JArr [JObj [], JObj []]))]\<rparr>"
proof -
  let ?items = "[[(ustr ''a'', JInt 1)], []]"
  let ?w = "example_world (Some (JArr (map JObj ?items)))"
  let ?a = "example_args ''input.json'' 0 '' , ,'' False"
  have p: "path_join ?w (script_dir ?w) (arg_f ?a) = ustr ''/app/input.json''"
    by (simp add: example_world_def example_args_def ustr_def)
  have h1: "arg_n ?a = 0" by (simp add: example_args_def)
  have h2: "(\<forall>t\<in>set (str_split comma (arg_k ?a)). str_strip t = [])
         \<or> (\<forall>c\<in>set (arg_k ?a). c = comma \<or> py_isspace c)"
    by (simp add: example_args_def comma_def py_isspace_def ustr_def)
  have h3: "isfile ?w (path_join ?w (script_dir ?w) (arg_f ?a))"
    unfolding p by (simp add: example_world_def)
  have h4: "json_load ?w (path_join ?w (script_dir ?w) (arg_f ?a)) = Some (JArr (map JObj ?items))"
    unfolding p by (simp add: example_world_def)
  have h5: "write_error ?w (if arg_c ?a then csv_output_name else json_output_name)
           (if arg_c ?a then CsvDump [] (replicate (length ?items) [])
            else JsonDump (JArr (replicate (length ?items) (JObj [])))) = None"
    by (simp add: example_world_def)
  from main_no_keys [OF h1 h2 h3 h4 h5] show ?thesis
    unfolding p by (simp add: example_args_def numeral_2_eq_2)
qed

end
